theory Spec2Isabelle
  imports Complex_Main
begin

section \<open>The random module\<close>

text \<open>
  The program draws its random numbers from Python's module-level generator. The
  generator is a state that every draw advances; here it is a sequence of raw draws and
  a cursor. \<^verbatim>\<open>randint(a, b)\<close> is \<^verbatim>\<open>a + randbelow(b - a + 1)\<close>, \<^verbatim>\<open>uniform(a, b)\<close> is
  \<^verbatim>\<open>a + (b - a) * random()\<close> with \<^verbatim>\<open>random()\<close> a 53-bit fraction in [0, 1), and
  \<^verbatim>\<open>choice(seq)\<close> is \<^verbatim>\<open>seq[randbelow(len(seq))]\<close>. Every value the library can
  return is the image of some raw draw. \<^verbatim>\<open>randint\<close> raises ValueError on an empty range;
  the program only calls it with \<^verbatim>\<open>a = 0\<close> and \<^verbatim>\<open>b \<ge> 1\<close>. Python floats are read as reals.
\<close>

record rng =
  draws :: "nat \<Rightarrow> nat"
  pos :: nat

definition next_raw :: "rng \<Rightarrow> nat \<times> rng" where
  "next_raw g = (draws g (pos g), g\<lparr>pos := Suc (pos g)\<rparr>)"

definition randbelow :: "nat \<Rightarrow> rng \<Rightarrow> nat \<times> rng" where
  "randbelow n g = (case next_raw g of (r, g') \<Rightarrow> (r mod n, g'))"

definition randint :: "int \<Rightarrow> int \<Rightarrow> rng \<Rightarrow> int \<times> rng" where
  "randint a b g = (case randbelow (nat (b - a + 1)) g of (r, g') \<Rightarrow> (a + int r, g'))"

definition uniform :: "real \<Rightarrow> real \<Rightarrow> rng \<Rightarrow> real \<times> rng" where
  "uniform a b g =
     (case randbelow (2 ^ 53) g of (r, g') \<Rightarrow> (a + (b - a) * (real r / 2 ^ 53), g'))"

definition choice :: "'a list \<Rightarrow> rng \<Rightarrow> 'a \<times> rng" where
  "choice seq g = (case randbelow (length seq) g of (r, g') \<Rightarrow> (seq ! r, g'))"

section \<open>ParticleCanvas\<close>

definition NEON_COLORS :: "string list" where
  "NEON_COLORS = [''#00f5ff'', ''#ff00e6'', ''#4dff6e'', ''#ff9a00'', ''#7a5cff'']"

text \<open>A particle is the dict built by \<^verbatim>\<open>_create_particle\<close>, one field per key.\<close>

record particle =
  p_x :: real
  p_y :: real
  p_dx :: real
  p_dy :: real
  p_size :: int
  p_color :: string
  p_id :: nat

text \<open>An oval item of the Tk canvas: its bounding box and its fill and outline options.\<close>

record oval =
  coords :: "real \<times> real \<times> real \<times> real"
  fill :: string
  outline :: string

datatype canvas_callback = Animate

text \<open>
  The widget: its two attributes, the canvas items by id (\<^verbatim>\<open>create_oval\<close> hands out
  increasing ids), the size Tk reports for the window, the calls made to \<^verbatim>\<open>after\<close>
  (delay and callback), and the generator of the random module.
\<close>

record particle_canvas =
  desired_count :: int
  particles :: "particle list"
  items :: "nat \<rightharpoonup> oval"
  next_item :: nat
  winfo_width :: nat
  winfo_height :: nat
  scheduled :: "(nat \<times> canvas_callback) list"
  random :: rng

definition create_oval ::
  "real \<times> real \<times> real \<times> real \<Rightarrow> string \<Rightarrow> string \<Rightarrow> particle_canvas \<Rightarrow> nat \<times> particle_canvas" where
  "create_oval box f ol s =
     (next_item s,
      s\<lparr>items := (items s)(next_item s \<mapsto> \<lparr>coords = box, fill = f, outline = ol\<rparr>),
        next_item := Suc (next_item s)\<rparr>)"

definition canvas_coords :: "nat \<Rightarrow> real \<times> real \<times> real \<times> real \<Rightarrow> particle_canvas \<Rightarrow> particle_canvas" where
  "canvas_coords i box s =
     (case items s i of None \<Rightarrow> s
      | Some ov \<Rightarrow> s\<lparr>items := (items s)(i \<mapsto> ov\<lparr>coords := box\<rparr>)\<rparr>)"

definition itemconfig :: "nat \<Rightarrow> string \<Rightarrow> string \<Rightarrow> particle_canvas \<Rightarrow> particle_canvas" where
  "itemconfig i f ol s =
     (case items s i of None \<Rightarrow> s
      | Some ov \<Rightarrow> s\<lparr>items := (items s)(i \<mapsto> ov\<lparr>fill := f, outline := ol\<rparr>)\<rparr>)"

definition canvas_delete :: "nat \<Rightarrow> particle_canvas \<Rightarrow> particle_canvas" where
  "canvas_delete i s = s\<lparr>items := (items s)(i := None)\<rparr>"


text \<open>\<^verbatim>\<open>self.winfo_width() or 1\<close> and \<^verbatim>\<open>self.winfo_height() or 1\<close>.\<close>

definition width_or_1 :: "particle_canvas \<Rightarrow> int" where
  "width_or_1 s = (if winfo_width s = 0 then 1 else int (winfo_width s))"

definition height_or_1 :: "particle_canvas \<Rightarrow> int" where
  "height_or_1 s = (if winfo_height s = 0 then 1 else int (winfo_height s))"

definition create_particle :: "particle_canvas \<Rightarrow> particle \<times> particle_canvas" where
  "create_particle s =
     (case randint 6 50 (random s) of (sz, g1) \<Rightarrow>
      case uniform (- 1.5) 1.5 g1 of (vx, g2) \<Rightarrow>
      case uniform 0.3 1.6 g2 of (vy, g3) \<Rightarrow>
      case choice NEON_COLORS g3 of (col, g4) \<Rightarrow>
      case create_oval (0, 0, real_of_int sz, real_of_int sz) '''' '''' (s\<lparr>random := g4\<rparr>) of
        (i, s') \<Rightarrow>
          (\<lparr>p_x = 0, p_y = 0, p_dx = vx, p_dy = vy, p_size = sz, p_color = col, p_id = i\<rparr>, s'))"

definition draw_particle :: "particle \<Rightarrow> particle_canvas \<Rightarrow> particle_canvas" where
  "draw_particle p s =
     itemconfig (p_id p) (p_color p) ''''
       (canvas_coords (p_id p)
          (p_x p, p_y p, p_x p + real_of_int (p_size p), p_y p + real_of_int (p_size p)) s)"

text \<open>
  The loop of \<^verbatim>\<open>_scatter_particles\<close>: each dict of the list is updated in place and
  redrawn. The recursion returns the updated list and the widget state (items and
  generator) after the last particle.
\<close>

fun scatter_loop ::
  "int \<Rightarrow> int \<Rightarrow> particle list \<Rightarrow> particle_canvas \<Rightarrow> particle list \<times> particle_canvas" where
  "scatter_loop width height [] s = ([], s)"
| "scatter_loop width height (p # ps) s =
     (case randint 0 width (random s) of (rx, g1) \<Rightarrow>
      case randint 0 height g1 of (ry, g2) \<Rightarrow>
        (let p' = p\<lparr>p_x := real_of_int rx, p_y := real_of_int ry\<rparr>;
             s' = draw_particle p' (s\<lparr>random := g2\<rparr>)
         in case scatter_loop width height ps s' of (ps', s'') \<Rightarrow> (p' # ps', s'')))"

definition scatter_particles :: "int \<Rightarrow> int \<Rightarrow> particle_canvas \<Rightarrow> particle_canvas" where
  "scatter_particles width height s =
     (if width \<le> 1 \<or> height \<le> 1 then s
      else case scatter_loop width height (particles s) s of
             (ps, s') \<Rightarrow> s'\<lparr>particles := ps\<rparr>)"

record configure_event =
  ev_width :: int
  ev_height :: int

definition handle_resize :: "configure_event \<Rightarrow> particle_canvas \<Rightarrow> particle_canvas" where
  "handle_resize event s = scatter_particles (ev_width event) (ev_height event) s"




text \<open>The two loops of \<^verbatim>\<open>set_particle_count\<close>, on the local \<^verbatim>\<open>current\<close> and the widget.\<close>

function set_particle_count_grow :: "int \<Rightarrow> int \<Rightarrow> particle_canvas \<Rightarrow> int \<times> particle_canvas" where
  "set_particle_count_grow current count s =
     (if current < count then
        (case create_particle s of (new_particle, s1) \<Rightarrow>
         case randint 0 (width_or_1 s1) (random s1) of (rx, g1) \<Rightarrow>
         case randint 0 (height_or_1 s1) g1 of (ry, g2) \<Rightarrow>
           (let np = new_particle\<lparr>p_x := real_of_int rx, p_y := real_of_int ry\<rparr>;
                s2 = draw_particle np (s1\<lparr>random := g2\<rparr>);
                s3 = s2\<lparr>particles := particles s2 @ [np]\<rparr>
            in set_particle_count_grow (current + 1) count s3))
      else (current, s))"
  by pat_completeness auto
termination
  by (relation "measure (\<lambda>(current, count, s). nat (count - current))") auto

function set_particle_count_shrink :: "int \<Rightarrow> int \<Rightarrow> particle_canvas \<Rightarrow> int \<times> particle_canvas" where
  "set_particle_count_shrink current count s =
     (if current > count \<and> particles s \<noteq> [] then
        (let particle = last (particles s);
             s1 = s\<lparr>particles := butlast (particles s)\<rparr>;
             s2 = canvas_delete (p_id particle) s1
         in set_particle_count_shrink (current - 1) count s2)
      else (current, s))"
  by pat_completeness auto
termination
  by (relation "measure (\<lambda>(current, count, s). nat (current - count))") auto

definition set_particle_count :: "int \<Rightarrow> particle_canvas \<Rightarrow> particle_canvas" where
  "set_particle_count count0 s0 =
     (let count = max 5 (min count0 150);
          s = s0\<lparr>desired_count := count\<rparr>;
          current = int (length (particles s))
      in case set_particle_count_grow current count s of (current', s') \<Rightarrow>
           snd (set_particle_count_shrink current' count s'))"

definition reseed :: "particle_canvas \<Rightarrow> particle_canvas" where
  "reseed s =
     (let s' = scatter_particles (width_or_1 s) (height_or_1 s) s
      in set_particle_count (desired_count s') s')"



text \<open>Concrete widgets on which the theorems are evaluated.\<close>

definition demo_rng :: rng where
  "demo_rng = \<lparr>draws = (\<lambda>i. 7 * i + 3), pos = 0\<rparr>"

definition demo_particle :: "nat \<Rightarrow> particle" where
  "demo_particle i =
     \<lparr>p_x = 10 * real i, p_y = 5, p_dx = 1, p_dy = 1 / 2, p_size = 6 + int i,
      p_color = ''#00f5ff'', p_id = i\<rparr>"

definition demo_canvas :: particle_canvas where
  "demo_canvas =
     \<lparr>desired_count = 6, particles = map demo_particle [1..<7],
      items = (\<lambda>i. if 1 \<le> i \<and> i < 7
                    then Some \<lparr>coords = (10 * real i, 5, 10 * real i + 6 + real i, 11 + real i),
                               fill = ''#00f5ff'', outline = ''''\<rparr>
                    else None),
      next_item = 7, winfo_width = 100, winfo_height = 100,
      scheduled = [(35, Animate)], random = demo_rng\<rparr>"



section \<open>Strings\<close>

text \<open>
  A Python \<^verbatim>\<open>str\<close> is a sequence of code points, so \<^verbatim>\<open>len\<close> and slicing count code
  points. The literals of the program are ASCII apart from the horizontal ellipsis
  (U+2026) and the rightwards arrow (U+2192).
\<close>

type_synonym str = "nat list"

definition ascii :: "string \<Rightarrow> str" where
  "ascii cs = map of_char cs"

definition ELLIPSIS :: str where
  "ELLIPSIS = [8230]"

definition ARROW :: str where
  "ARROW = [8594]"

text \<open>The code points for which \<^verbatim>\<open>str.isspace\<close> holds; \<^verbatim>\<open>strip()\<close> and \<^verbatim>\<open>split()\<close> use them.\<close>

definition isspace :: "nat \<Rightarrow> bool" where
  "isspace c \<longleftrightarrow>
     (9 \<le> c \<and> c \<le> 13) \<or> (28 \<le> c \<and> c \<le> 32) \<or> c = 133 \<or> c = 160 \<or> c = 5760 \<or>
     (8192 \<le> c \<and> c \<le> 8202) \<or> c = 8232 \<or> c = 8233 \<or> c = 8239 \<or> c = 8287 \<or> c = 12288"

definition strip :: "str \<Rightarrow> str" where
  "strip s = rev (dropWhile isspace (rev (dropWhile isspace s)))"

definition strip_chars :: "str \<Rightarrow> str \<Rightarrow> str" where
  "strip_chars chars s =
     rev (dropWhile (\<lambda>c. c \<in> set chars) (rev (dropWhile (\<lambda>c. c \<in> set chars) s)))"

text \<open>\<^verbatim>\<open>s.split()\<close>: the maximal runs of non-space code points; \<open>w\<close> is the run being read, reversed.\<close>

fun split_from :: "str \<Rightarrow> str \<Rightarrow> str list" where
  "split_from w [] = (if w = [] then [] else [rev w])"
| "split_from w (c # cs) =
     (if isspace c then (if w = [] then split_from [] cs else rev w # split_from [] cs)
      else split_from (c # w) cs)"

definition split_ws :: "str \<Rightarrow> str list" where
  "split_ws s = split_from [] s"

text \<open>The decimal digits of a natural number, as an f-string formats it.\<close>

fun str_of_nat :: "nat \<Rightarrow> str" where
  "str_of_nat n = (if n < 10 then [48 + n] else str_of_nat (n div 10) @ [48 + n mod 10])"

section \<open>TranslatorApp\<close>

text \<open>
  The translation service and the speech engine are outside the program: a call returns
  or raises. \<open>exc\<close> is an instance of \<^verbatim>\<open>Exception\<close> with its \<^verbatim>\<open>str()\<close>; \<open>translated\<close> is the
  object \<^verbatim>\<open>Translator.translate\<close> returns, with the three attributes the program reads.
\<close>

datatype exc = Exc str

fun exc_str :: "exc \<Rightarrow> str" where
  "exc_str (Exc m) = m"

record translated =
  r_text :: str
  r_src :: str
  r_dest :: str

text \<open>Exceptions raised inside a callback of the Tk loop; Tk reports them and goes on.\<close>

datatype py_error = NameError string | KeyError str

text \<open>
  A local variable that a lambda refers to lives in a cell shared by the function's
  frame and the closure. A cell holds an object or is unbound.
\<close>

datatype pyobj = ExcObj exc | ResultObj translated

text \<open>
  What the methods modelled here hand to \<^verbatim>\<open>root.after\<close>: the bound method
  \<^verbatim>\<open>self.translate\<close> and the four lambdas of the workers; a lambda over \<^verbatim>\<open>exc\<close> or
  \<^verbatim>\<open>result\<close> carries the address of that cell.
\<close>

datatype callback =
    Translate
  | HandleError nat
  | ApplyTranslation nat
  | TtsFailed nat
  | DoneSpeaking

text \<open>
  The timer queue of the Tk interpreter, with a clock in milliseconds. \<^verbatim>\<open>after(ms, f)\<close>
  registers \<open>f\<close> for the time \<open>now + ms\<close> and returns a fresh id (the number in
  \<^verbatim>\<open>after#N\<close>); \<^verbatim>\<open>after_cancel(id)\<close> removes the timer with that id, and does nothing for
  an id that is not pending.
\<close>

record timer =
  t_id :: nat
  t_due :: nat
  t_callback :: callback

record tk =
  now :: nat
  timers :: "timer list"
  next_timer :: nat

definition after :: "nat \<Rightarrow> callback \<Rightarrow> tk \<Rightarrow> nat \<times> tk" where
  "after ms cb r =
     (next_timer r,
      r\<lparr>timers := timers r @ [\<lparr>t_id = next_timer r, t_due = now r + ms, t_callback = cb\<rparr>],
        next_timer := Suc (next_timer r)\<rparr>)"

definition after_cancel :: "nat \<Rightarrow> tk \<Rightarrow> tk" where
  "after_cancel i r = r\<lparr>timers := filter (\<lambda>tm. t_id tm \<noteq> i) (timers r)\<rparr>"

text \<open>A started thread: its target and arguments.\<close>

datatype worker = TranslateWorker str str str | SpeakWorker str

text \<open>\<^verbatim>\<open>deque(maxlen=n)\<close>: appending to a full deque discards items from the left end.\<close>

record 'a deque =
  maxlen :: nat
  elems :: "'a list"

definition deque_append :: "'a \<Rightarrow> 'a deque \<Rightarrow> 'a deque" where
  "deque_append v d =
     d\<lparr>elems := drop (length (elems d) + 1 - maxlen d) (elems d @ [v])\<rparr>"

text \<open>
  The application: the attributes and widget contents the modelled methods use, the
  two tables built from the language list of the translation library, the two outside
  services, the started threads that have not run yet, the closure cells, the error
  dialogs shown and the exceptions Tk reported for callbacks.
\<close>

record translator_app =
  LANGUAGE_MAP :: "str \<rightharpoonup> str"
  CODE_TO_NAME :: "str \<rightharpoonup> str"
  translator :: "str \<Rightarrow> str \<Rightarrow> str \<Rightarrow> exc + translated"
  tts_engine :: "str \<Rightarrow> exc option"
  engine_rate :: int
  engine_volume :: real
  root :: tk
  source_text :: str
  output_text :: str
  output_state :: string
  source_lang_var :: str
  target_lang_var :: str
  status_var :: str
  status_tooltip :: "str option"
  char_count_var :: str
  speed_var :: int
  volume_var :: real
  last_translation :: str
  last_detected :: str
  history :: "(str \<times> str \<times> str \<times> str) deque"
  auto_translate_delay :: nat
  typing_job :: "nat option"
  threads :: "worker list"
  cells :: "pyobj option list"
  errors_shown :: "(str \<times> str) list"
  callback_errors :: "py_error list"

text \<open>\<^verbatim>\<open>widget.get("1.0", END)\<close>: the content of a Text widget and the newline Tk keeps at its end.\<close>

definition text_get :: "str \<Rightarrow> str" where
  "text_get content = content @ [10]"

definition set_status :: "str \<Rightarrow> translator_app \<Rightarrow> translator_app" where
  "set_status message s = s\<lparr>status_var := message, status_tooltip := Some message\<rparr>"

definition record_history :: "str \<Rightarrow> str \<Rightarrow> str \<Rightarrow> str \<Rightarrow> translator_app \<Rightarrow> translator_app" where
  "record_history source translation detected target s =
     (let preview_src = (if length source > 120 then take 120 source @ ELLIPSIS else source);
          preview_dest = (if length translation > 120 then take 120 translation @ ELLIPSIS
                          else translation)
      in s\<lparr>history := deque_append (preview_src, preview_dest, detected, target) (history s)\<rparr>)"

definition translate :: "translator_app \<Rightarrow> py_error + translator_app" where
  "translate s =
     (let text = strip (text_get (source_text s))
      in if text = [] then Inr (set_status (ascii ''Type something to translate.'') s)
         else
           (let src_name = source_lang_var s; tgt_name = target_lang_var s
            in case (if src_name = ascii ''Auto Detect'' then Some (ascii ''auto'')
                     else LANGUAGE_MAP s src_name) of
                 None \<Rightarrow> Inl (KeyError src_name)
               | Some src_code \<Rightarrow>
                   (case LANGUAGE_MAP s tgt_name of
                      None \<Rightarrow> Inl (KeyError tgt_name)
                    | Some tgt_code \<Rightarrow>
                        (let s1 = set_status (ascii ''Translating'' @ ELLIPSIS) s;
                             s2 = s1\<lparr>threads := threads s1 @ [TranslateWorker text src_code tgt_code]\<rparr>
                         in Inr (s2\<lparr>typing_job := None\<rparr>)))))"

text \<open>
  \<^verbatim>\<open>_translate_worker\<close>. In the handler, \<^verbatim>\<open>except Exception as exc\<close> binds the cell of
  \<^verbatim>\<open>exc\<close>, the lambda given to \<^verbatim>\<open>after\<close> closes over that cell, and leaving the except
  clause (here by \<^verbatim>\<open>return\<close>) unbinds \<^verbatim>\<open>exc\<close>, as Python does for every
  \<^verbatim>\<open>except ... as\<close> target. The cell of \<^verbatim>\<open>result\<close> stays bound.
\<close>

definition translate_worker :: "str \<Rightarrow> str \<Rightarrow> str \<Rightarrow> translator_app \<Rightarrow> translator_app" where
  "translate_worker text src dest s =
     (let a = length (cells s)
      in case translator s text src dest of
           Inl e \<Rightarrow>
             (let s1 = s\<lparr>cells := cells s @ [Some (ExcObj e)]\<rparr>
              in case after 0 (HandleError a) (root s1) of
                   (i, r) \<Rightarrow> (s1\<lparr>root := r\<rparr>)\<lparr>cells := (cells s1)[a := None]\<rparr>)
         | Inr result \<Rightarrow>
             (let s1 = s\<lparr>cells := cells s @ [Some (ResultObj result)]\<rparr>
              in case after 0 (ApplyTranslation a) (root s1) of
                   (i, r) \<Rightarrow> s1\<lparr>root := r\<rparr>))"

definition apply_translation :: "translated \<Rightarrow> translator_app \<Rightarrow> translator_app" where
  "apply_translation result s =
     (let s1 = s\<lparr>output_state := ''normal''\<rparr>;
          s2 = s1\<lparr>output_text := []\<rparr>;
          translation = strip (r_text result);
          s3 = s2\<lparr>last_translation := translation\<rparr>;
          detected = (case CODE_TO_NAME s3 (r_src result) of Some n \<Rightarrow> n | None \<Rightarrow> r_src result);
          s4 = s3\<lparr>last_detected := detected\<rparr>;
          s5 = s4\<lparr>output_text := output_text s4 @ translation\<rparr>;
          s6 = (if detected \<noteq> []
                then s5\<lparr>output_text := output_text s5 @
                        [10, 10] @ ascii ''[Detected language: '' @ detected @ ascii '']''\<rparr>
                else s5);
          s7 = s6\<lparr>output_state := ''disabled''\<rparr>;
          target = (case CODE_TO_NAME s7 (r_dest result) of Some n \<Rightarrow> n | None \<Rightarrow> r_dest result);
          s8 = set_status (ascii ''Translated '' @ detected @ ascii '' '' @ ARROW @ ascii '' '' @
                           target @ ascii ''.'') s7
      in record_history (strip (text_get (source_text s8))) translation detected target s8)"

definition apply_tts_preferences :: "translator_app \<Rightarrow> translator_app" where
  "apply_tts_preferences s = s\<lparr>engine_rate := speed_var s, engine_volume := volume_var s / 100\<rparr>"

definition speak_translation :: "translator_app \<Rightarrow> translator_app" where
  "speak_translation s =
     (let text = strip (last_translation s)
      in if text = [] then set_status (ascii ''Nothing to speak. Translate first.'') s
         else
           (let s1 = apply_tts_preferences s;
                s2 = set_status (ascii ''Speaking'' @ ELLIPSIS) s1
            in s2\<lparr>threads := threads s2 @ [SpeakWorker text]\<rparr>))"

text \<open>\<^verbatim>\<open>_speak_worker\<close>, with the same binding and unbinding of \<^verbatim>\<open>exc\<close>.\<close>

definition speak_worker :: "str \<Rightarrow> translator_app \<Rightarrow> translator_app" where
  "speak_worker text s =
     (case tts_engine s text of
        Some e \<Rightarrow>
          (let a = length (cells s);
               s1 = s\<lparr>cells := cells s @ [Some (ExcObj e)]\<rparr>
           in case after 0 (TtsFailed a) (root s1) of
                (i, r) \<Rightarrow> (s1\<lparr>root := r\<rparr>)\<lparr>cells := (cells s1)[a := None]\<rparr>)
      | None \<Rightarrow> (case after 0 DoneSpeaking (root s) of (i, r) \<Rightarrow> s\<lparr>root := r\<rparr>))"

definition handle_error :: "exc \<Rightarrow> translator_app \<Rightarrow> translator_app" where
  "handle_error e s =
     (let s1 = set_status (ascii ''Translation failed. Check network/API limits.'') s
      in s1\<lparr>errors_shown := errors_shown s1 @ [(ascii ''Translation Error'', exc_str e)]\<rparr>)"

definition update_char_count :: "translator_app \<Rightarrow> translator_app" where
  "update_char_count s =
     (let text = strip_chars [10] (text_get (source_text s));
          words = (if text \<noteq> [] then length (split_ws text) else 0);
          chars = length text
      in s\<lparr>char_count_var := ascii ''Words: '' @ str_of_nat words @ ascii '' | Characters: '' @
                               str_of_nat chars\<rparr>)"

definition on_input_change :: "translator_app \<Rightarrow> translator_app" where
  "on_input_change s =
     (let s1 = update_char_count s;
          s2 = (case typing_job s1 of
                  None \<Rightarrow> s1
                | Some job \<Rightarrow> s1\<lparr>root := after_cancel job (root s1)\<rparr>)
      in case after (auto_translate_delay s2) Translate (root s2) of
           (job, r) \<Rightarrow> s2\<lparr>root := r, typing_job := Some job\<rparr>)"

subsection \<open>The Tk loop and the threads\<close>

text \<open>Reading the cell of a closure: unbound, it raises NameError.\<close>

definition load_cell :: "nat \<Rightarrow> translator_app \<Rightarrow> pyobj option" where
  "load_cell a s = (if a < length (cells s) then cells s ! a else None)"

definition report_callback_exception :: "py_error \<Rightarrow> translator_app \<Rightarrow> translator_app" where
  "report_callback_exception e s = s\<lparr>callback_errors := callback_errors s @ [e]\<rparr>"

text \<open>One callback run by the Tk loop: a timer that fired, a button or a key binding.\<close>

fun run_callback :: "callback \<Rightarrow> translator_app \<Rightarrow> translator_app" where
  "run_callback Translate s =
     (case translate s of Inl e \<Rightarrow> report_callback_exception e s | Inr s' \<Rightarrow> s')"
| "run_callback (HandleError a) s =
     (case load_cell a s of
        Some (ExcObj e) \<Rightarrow> handle_error e s
      | _ \<Rightarrow> report_callback_exception (NameError ''exc'') s)"
| "run_callback (ApplyTranslation a) s =
     (case load_cell a s of
        Some (ResultObj result) \<Rightarrow> apply_translation result s
      | _ \<Rightarrow> report_callback_exception (NameError ''result'') s)"
| "run_callback (TtsFailed a) s =
     (case load_cell a s of
        Some (ExcObj e) \<Rightarrow> set_status (ascii ''TTS failed: '' @ exc_str e) s
      | _ \<Rightarrow> report_callback_exception (NameError ''exc'') s)"
| "run_callback DoneSpeaking s = set_status (ascii ''Done speaking.'') s"

text \<open>The pending timer that is due first at time \<open>t\<close>, the older one among equals.\<close>

fun first_due :: "nat \<Rightarrow> timer list \<Rightarrow> timer option" where
  "first_due t [] = None"
| "first_due t (tm # tms) =
     (case first_due t tms of
        None \<Rightarrow> (if t_due tm \<le> t then Some tm else None)
      | Some tm' \<Rightarrow> (if t_due tm \<le> t_due tm' then Some tm else Some tm'))"

text \<open>
  The Tk loop up to the time \<open>t\<close>: it fires the due timers one after the other, each at
  its due time (or at once, when that time is past), and then waits until \<open>t\<close>.
\<close>

function run_until :: "nat \<Rightarrow> translator_app \<Rightarrow> translator_app" where
  "run_until t s =
     (case first_due t (timers (root s)) of
        None \<Rightarrow> s\<lparr>root := (root s)\<lparr>now := max (now (root s)) t\<rparr>\<rparr>
      | Some tm \<Rightarrow>
          run_until t
            (run_callback (t_callback tm)
               (s\<lparr>root := (root s)\<lparr>now := max (now (root s)) (t_due tm),
                                   timers := remove1 tm (timers (root s))\<rparr>\<rparr>)))"
  by pat_completeness auto
termination
proof (relation "measure (\<lambda>(t, s). length (timers (root s)))")
  show "wf (measure (\<lambda>(t, s). length (timers (root s))))" by simp
next
  fix t :: nat and s :: translator_app and tm :: timer
  assume due: "first_due t (timers (root s)) = Some tm"
  have mem: "first_due t tms = Some tm \<Longrightarrow> tm \<in> set tms" for tms
    by (induction tms arbitrary: tm) (auto split: option.splits if_splits)
  have keep: "root (run_callback cb u) = root u" for cb u
    by (cases cb)
      (auto simp: translate_def set_status_def report_callback_exception_def handle_error_def
        apply_translation_def record_history_def Let_def
        split: sum.splits option.splits pyobj.splits if_splits)
  from mem[OF due] have "length (remove1 tm (timers (root s))) < length (timers (root s))"
    by (simp add: length_remove1) (cases "timers (root s)", auto)
  then show "((t, run_callback (t_callback tm)
                 (s\<lparr>root := (root s)\<lparr>now := max (now (root s)) (t_due tm),
                                     timers := remove1 tm (timers (root s))\<rparr>\<rparr>)), t, s)
             \<in> measure (\<lambda>(t, s). length (timers (root s)))"
    by (simp add: keep)
qed

text \<open>The next started thread runs its target to the end.\<close>

definition run_thread :: "translator_app \<Rightarrow> translator_app" where
  "run_thread s =
     (case threads s of
        [] \<Rightarrow> s
      | TranslateWorker text src dest # ws \<Rightarrow> translate_worker text src dest (s\<lparr>threads := ws\<rparr>)
      | SpeakWorker text # ws \<Rightarrow> speak_worker text (s\<lparr>threads := ws\<rparr>))"

text \<open>
  What happens to the application from outside: the user edits the source text (Tk
  changes the widget, then the key binding calls \<^verbatim>\<open>_on_input_change\<close>), presses the
  Translate or the Speak button, a started thread runs, or time passes until \<open>t\<close>.
\<close>

datatype event = KeyRelease str | PressTranslate | PressSpeak | ThreadRuns | TimeReaches nat

fun step :: "translator_app \<Rightarrow> event \<Rightarrow> translator_app" where
  "step s (KeyRelease content) = on_input_change (s\<lparr>source_text := content\<rparr>)"
| "step s PressTranslate = run_callback Translate s"
| "step s PressSpeak = speak_translation s"
| "step s ThreadRuns = run_thread s"
| "step s (TimeReaches t) = run_until t s"




text \<open>
  A concrete application on which the theorems are evaluated. Its translation service
  answers a request for Spanish with \<^verbatim>\<open>hola\<close>, detected as English, and raises for
  every other target language.
\<close>

definition demo_app :: translator_app where
  "demo_app =
     \<lparr>LANGUAGE_MAP = [ascii ''English'' \<mapsto> ascii ''en'', ascii ''Spanish'' \<mapsto> ascii ''es''],
      CODE_TO_NAME = [ascii ''en'' \<mapsto> ascii ''English'', ascii ''es'' \<mapsto> ascii ''Spanish''],
      translator = (\<lambda>text src dest.
         if dest = ascii ''es'' then Inr \<lparr>r_text = ascii ''hola'', r_src = ascii ''en'', r_dest = dest\<rparr>
         else Inl (Exc (ascii ''network down''))),
      tts_engine = (\<lambda>text. None),
      engine_rate = 200, engine_volume = 1,
      root = \<lparr>now = 0, timers = [], next_timer = 0\<rparr>,
      source_text = ascii ''hello'', output_text = [], output_state = ''disabled'',
      source_lang_var = ascii ''Auto Detect'', target_lang_var = ascii ''English'',
      status_var = ascii ''Ready.'', status_tooltip = Some (ascii ''Ready.''),
      char_count_var = ascii ''Words: 1 | Characters: 5'',
      speed_var = 170, volume_var = 80,
      last_translation = [], last_detected = [],
      history = \<lparr>maxlen = 10, elems = []\<rparr>,
      auto_translate_delay = 650, typing_job = None,
      threads = [], cells = [], errors_shown = [], callback_errors = []\<rparr>"

text \<open>
  The user presses Translate, the worker thread runs, and the Tk loop fires what is
  due: once with the failing service, once with the target language set to Spanish.
\<close>

definition failed_run :: translator_app where
  "failed_run = foldl step demo_app [PressTranslate, ThreadRuns, TimeReaches 0]"

definition spanish_run :: translator_app where
  "spanish_run =
     foldl step (demo_app\<lparr>target_lang_var := ascii ''Spanish''\<rparr>)
       [PressTranslate, ThreadRuns, TimeReaches 0]"

text \<open>The same application with a full history of ten entries.\<close>

definition full_app :: translator_app where
  "full_app =
     demo_app\<lparr>history :=
       \<lparr>maxlen = 10,
        elems = map (\<lambda>i. ([97 + i], [65 + i], ascii ''English'', ascii ''Spanish'')) [0..<10]\<rparr>\<rparr>"

section \<open>Lemmas on the particle canvas\<close>

declare set_particle_count_grow.simps [simp del]
declare set_particle_count_shrink.simps [simp del]

lemma draw_particle_fields:
  "particles (draw_particle p s) = particles s"
  "desired_count (draw_particle p s) = desired_count s"
  "winfo_width (draw_particle p s) = winfo_width s"
  "winfo_height (draw_particle p s) = winfo_height s"
  "next_item (draw_particle p s) = next_item s"
  "scheduled (draw_particle p s) = scheduled s"
  "random (draw_particle p s) = random s"
  by (simp_all add: draw_particle_def itemconfig_def canvas_coords_def split: option.splits)

lemma create_particle_fields:
  assumes "create_particle s = (p, s')"
  shows "particles s' = particles s" "desired_count s' = desired_count s"
    "winfo_width s' = winfo_width s" "winfo_height s' = winfo_height s"
    "next_item s' = Suc (next_item s)" "scheduled s' = scheduled s"
  using assms
  by (auto simp: create_particle_def create_oval_def split: prod.splits)

lemma grow_stop: "\<not> current < count \<Longrightarrow> set_particle_count_grow current count s = (current, s)"
  by (simp add: set_particle_count_grow.simps)

lemma grow_result:
  "set_particle_count_grow current count s = (current', s') \<Longrightarrow>
   current' = max current count \<and>
   length (particles s') = length (particles s) + nat (count - current) \<and>
   take (length (particles s)) (particles s') = particles s \<and>
   desired_count s' = desired_count s \<and>
   next_item s' = next_item s + nat (count - current)"
proof (induction current count s arbitrary: current' s' rule: set_particle_count_grow.induct)
  case (1 current count s)
  show ?case
  proof (cases "current < count")
    case False
    with "1.prems" show ?thesis by (simp add: grow_stop)
  next
    case True
    obtain np s1 where cp: "create_particle s = (np, s1)" by (cases "create_particle s")
    obtain rx g1 where r1: "randint 0 (width_or_1 s1) (random s1) = (rx, g1)"
      by (cases "randint 0 (width_or_1 s1) (random s1)")
    obtain ry g2 where r2: "randint 0 (height_or_1 s1) g1 = (ry, g2)"
      by (cases "randint 0 (height_or_1 s1) g1")
    define q where "q = np\<lparr>p_x := real_of_int rx, p_y := real_of_int ry\<rparr>"
    define s2 where "s2 = draw_particle q (s1\<lparr>random := g2\<rparr>)"
    define s3 where "s3 = s2\<lparr>particles := particles s2 @ [q]\<rparr>"
    have step: "set_particle_count_grow current count s = set_particle_count_grow (current + 1) count s3"
      using True cp r1 r2
      by (subst set_particle_count_grow.simps) (simp add: q_def s2_def s3_def Let_def)
    with "1.prems" have rec: "set_particle_count_grow (current + 1) count s3 = (current', s')"
      by simp
    have ih: "current' = max (current + 1) count \<and>
      length (particles s') = length (particles s3) + nat (count - (current + 1)) \<and>
      take (length (particles s3)) (particles s') = particles s3 \<and>
      desired_count s' = desired_count s3 \<and>
      next_item s' = next_item s3 + nat (count - (current + 1))"
      by (rule "1.IH"[OF True cp[symmetric] r1[symmetric] r2[symmetric] q_def s2_def s3_def rec])
    have p3: "particles s3 = particles s @ [q]"
      using create_particle_fields(1)[OF cp] by (simp add: s3_def s2_def draw_particle_fields)
    have d3: "desired_count s3 = desired_count s"
      using create_particle_fields(2)[OF cp] by (simp add: s3_def s2_def draw_particle_fields)
    have n3: "next_item s3 = Suc (next_item s)"
      using create_particle_fields(5)[OF cp] by (simp add: s3_def s2_def draw_particle_fields)
    have tk: "take (length (particles s)) (particles s') = particles s"
    proof -
      have "take (length (particles s)) (take (length (particles s3)) (particles s')) = particles s"
        using ih p3 by simp
      then show ?thesis by (simp add: p3 min_def)
    qed
    show ?thesis using ih True tk by (simp add: p3 d3 n3) 
  qed
qed


lemma shrink_stop:
  "\<not> (current > count \<and> particles s \<noteq> []) \<Longrightarrow> set_particle_count_shrink current count s = (current, s)"
  by (subst set_particle_count_shrink.simps) auto

lemma shrink_result:
  "current = int (length (particles s)) \<Longrightarrow>
   snd (set_particle_count_shrink current count s) =
     s\<lparr>particles := take (nat count) (particles s),
       items := (\<lambda>i. if i \<in> p_id ` set (drop (nat count) (particles s)) then None else items s i)\<rparr>"
proof (induction current count s rule: set_particle_count_shrink.induct)
  case (1 current count s)
  show ?case
  proof (cases "current > count \<and> particles s \<noteq> []")
    case False
    with "1.prems" have "length (particles s) \<le> nat count" by auto
    then show ?thesis using False by (simp add: shrink_stop)
  next
    case True
    define s1 where "s1 = s\<lparr>particles := butlast (particles s)\<rparr>"
    define s2 where "s2 = canvas_delete (p_id (last (particles s))) s1"
    have step: "set_particle_count_shrink current count s = set_particle_count_shrink (current - 1) count s2"
      using True by (subst set_particle_count_shrink.simps) (simp add: s1_def s2_def Let_def)
    have p2: "particles s2 = butlast (particles s)"
      by (simp add: s2_def s1_def canvas_delete_def)
    have len: "current - 1 = int (length (particles s2))"
      using True "1.prems" by (cases "particles s" rule: rev_cases) (auto simp: p2)
    have ih: "snd (set_particle_count_shrink (current - 1) count s2) =
      s2\<lparr>particles := take (nat count) (particles s2),
        items := (\<lambda>i. if i \<in> p_id ` set (drop (nat count) (particles s2)) then None else items s2 i)\<rparr>"
      by (rule "1.IH"[OF True refl s1_def s2_def len])
    have lt: "nat count < length (particles s)"
      using True "1.prems" by (cases "count < 0") auto
    have tk: "take (nat count) (butlast (particles s)) = take (nat count) (particles s)"
      using lt by (simp add: take_butlast)
    have dr: "set (drop (nat count) (particles s)) =
        insert (last (particles s)) (set (drop (nat count) (butlast (particles s))))"
    proof -
      have "particles s = butlast (particles s) @ [last (particles s)]" using True by simp
      then have "drop (nat count) (particles s) =
          drop (nat count) (butlast (particles s)) @ [last (particles s)]"
        using lt by (metis drop_append length_butlast One_nat_def Suc_pred diff_is_0_eq drop0 length_greater_0_conv less_Suc_eq_le True)
      then show ?thesis by simp
    qed
    have it: "(\<lambda>i. if i \<in> p_id ` set (drop (nat count) (particles s2)) then None else items s2 i) =
       (\<lambda>i. if i \<in> p_id ` set (drop (nat count) (particles s)) then None else items s i)"
      by (rule ext) (simp add: p2 dr, simp add: s2_def s1_def canvas_delete_def)
    show ?thesis
      unfolding step ih it by (simp add: p2 tk, simp add: s2_def s1_def canvas_delete_def)
  qed
qed


lemma set_particle_count_cases:
  "set_particle_count n s =
     (if int (length (particles s)) < max 5 (min n 150)
      then snd (set_particle_count_grow (int (length (particles s))) (max 5 (min n 150))
                  (s\<lparr>desired_count := max 5 (min n 150)\<rparr>))
      else snd (set_particle_count_shrink (int (length (particles s))) (max 5 (min n 150))
                  (s\<lparr>desired_count := max 5 (min n 150)\<rparr>)))"
proof -
  define c where "c = max 5 (min n 150)"
  define s1 where "s1 = s\<lparr>desired_count := c\<rparr>"
  define l where "l = int (length (particles s))"
  obtain cur' s' where g: "set_particle_count_grow l c s1 = (cur', s')"
    by (cases "set_particle_count_grow l c s1")
  have unf: "set_particle_count n s = snd (set_particle_count_shrink cur' c s')"
    using g by (simp add: set_particle_count_def Let_def c_def s1_def l_def)
  show ?thesis
  proof (cases "l < c")
    case True
    from grow_result[OF g] True have "cur' = c" by simp
    then have "set_particle_count_shrink cur' c s' = (cur', s')" by (simp add: shrink_stop)
    with unf g True show ?thesis by (simp add: c_def s1_def l_def)
  next
    case False
    then have "set_particle_count_grow l c s1 = (l, s1)" by (simp add: grow_stop)
    with g have "cur' = l" "s' = s1" by simp_all
    with unf False show ?thesis by (simp add: c_def s1_def l_def)
  qed
qed

lemma set_particle_count_length:
  "length (particles (set_particle_count n s)) = nat (max 5 (min n 150))"
proof -
  define c where "c = max 5 (min n 150)"
  define s1 where "s1 = s\<lparr>desired_count := c\<rparr>"
  define l where "l = int (length (particles s))"
  show ?thesis
  proof (cases "l < c")
    case True
    obtain cur' s' where g: "set_particle_count_grow l c s1 = (cur', s')"
      by (cases "set_particle_count_grow l c s1")
    from grow_result[OF g] have "length (particles s') = length (particles s1) + nat (c - l)"
      by simp
    then have "length (particles s') = nat c" using True by (simp add: s1_def l_def)
    with g True show ?thesis
      by (simp add: set_particle_count_cases c_def[symmetric] s1_def[symmetric] l_def[symmetric])
  next
    case False
    have "l = int (length (particles s1))" by (simp add: l_def s1_def)
    from shrink_result[OF this, of c] False show ?thesis
      by (simp add: set_particle_count_cases c_def[symmetric] s1_def[symmetric] l_def[symmetric])
        (simp add: l_def s1_def)
  qed
qed

lemma set_particle_count_desired:
  "desired_count (set_particle_count n s) = max 5 (min n 150)"
proof -
  define c where "c = max 5 (min n 150)"
  define s1 where "s1 = s\<lparr>desired_count := c\<rparr>"
  define l where "l = int (length (particles s))"
  show ?thesis
  proof (cases "l < c")
    case True
    obtain cur' s' where g: "set_particle_count_grow l c s1 = (cur', s')"
      by (cases "set_particle_count_grow l c s1")
    from grow_result[OF g] have "desired_count s' = c" by (simp add: s1_def)
    with g True show ?thesis
      by (simp add: set_particle_count_cases c_def[symmetric] s1_def[symmetric] l_def[symmetric])
  next
    case False
    have "l = int (length (particles s1))" by (simp add: l_def s1_def)
    from shrink_result[OF this, of c] False show ?thesis
      by (simp add: set_particle_count_cases c_def[symmetric] s1_def[symmetric] l_def[symmetric])
        (simp add: s1_def)
  qed
qed

text \<open>
  Claim C6: \<^verbatim>\<open>set_particle_count\<close> is idempotent. A second call with the same argument
  returns the widget exactly as the first call left it: the particle list, the canvas
  items, the item counter and the generator are all unchanged, so nothing is created
  and nothing is removed.
\<close>
theorem set_particle_count_idempotent:
  "set_particle_count n (set_particle_count n s) = set_particle_count n s"
proof -
  define c where "c = max 5 (min n 150)"
  define t where "t = set_particle_count n s"
  have l: "int (length (particles t)) = c"
    by (simp add: t_def c_def set_particle_count_length)
  have d: "desired_count t = c"
    by (simp add: t_def c_def set_particle_count_desired)
  have "set_particle_count n t =
      snd (set_particle_count_shrink c c (t\<lparr>desired_count := c\<rparr>))"
    by (simp add: set_particle_count_cases c_def[symmetric] l)
  also have "\<dots> = t\<lparr>desired_count := c\<rparr>" by (simp add: shrink_stop)
  also have "\<dots> = t" using d by simp
  finally show ?thesis by (simp add: t_def)
qed

text \<open>
  Claim C3: for every integer \<open>n\<close>, one call of \<^verbatim>\<open>set_particle_count\<close> leaves exactly
  \<open>max 5 (min n 150)\<close> particles. When the widget grows, the old particles stay in
  front and one canvas item is created for each added particle; when it shrinks, the
  list is cut at its end, no item is created, and exactly the items of the removed
  particles are deleted.
\<close>
theorem set_particle_count_converges:
  "length (particles (set_particle_count n s)) = nat (max 5 (min n 150)) \<and>
   (length (particles s) \<le> nat (max 5 (min n 150)) \<longrightarrow>
      take (length (particles s)) (particles (set_particle_count n s)) = particles s \<and>
      next_item (set_particle_count n s) =
        next_item s + (nat (max 5 (min n 150)) - length (particles s))) \<and>
   (nat (max 5 (min n 150)) \<le> length (particles s) \<longrightarrow>
      particles (set_particle_count n s) = take (nat (max 5 (min n 150))) (particles s) \<and>
      next_item (set_particle_count n s) = next_item s \<and>
      (\<forall>i. items (set_particle_count n s) i =
         (if i \<in> p_id ` set (drop (nat (max 5 (min n 150))) (particles s)) then None
          else items s i)))"
proof -
  define c where "c = max 5 (min n 150)"
  define s1 where "s1 = s\<lparr>desired_count := c\<rparr>"
  define l where "l = int (length (particles s))"
  have shrinkcase: "\<not> l < c \<Longrightarrow> set_particle_count n s =
      s1\<lparr>particles := take (nat c) (particles s1),
        items := (\<lambda>i. if i \<in> p_id ` set (drop (nat c) (particles s1)) then None else items s1 i)\<rparr>"
  proof -
    assume a: "\<not> l < c"
    have "l = int (length (particles s1))" by (simp add: l_def s1_def)
    from shrink_result[OF this, of c] a show ?thesis
      by (simp add: set_particle_count_cases c_def[symmetric] s1_def[symmetric] l_def[symmetric])
  qed
  have growcase: "l < c \<Longrightarrow>
      take (length (particles s)) (particles (set_particle_count n s)) = particles s \<and>
      next_item (set_particle_count n s) = next_item s + (nat c - length (particles s))"
  proof -
    assume a: "l < c"
    obtain cur' s' where g: "set_particle_count_grow l c s1 = (cur', s')"
      by (cases "set_particle_count_grow l c s1")
    have e: "set_particle_count n s = s'" using g a
      by (simp add: set_particle_count_cases c_def[symmetric] s1_def[symmetric] l_def[symmetric])
    from grow_result[OF g] have "take (length (particles s1)) (particles s') = particles s1"
      and "next_item s' = next_item s1 + nat (c - l)" by simp_all
    moreover have "nat (c - l) = nat c - length (particles s)" by (simp add: l_def)
    ultimately show ?thesis by (simp add: e s1_def)
  qed
  have A: "length (particles (set_particle_count n s)) = nat c"
    by (simp add: c_def set_particle_count_length)
  have B: "length (particles s) \<le> nat c \<longrightarrow>
      take (length (particles s)) (particles (set_particle_count n s)) = particles s \<and>
      next_item (set_particle_count n s) = next_item s + (nat c - length (particles s))"
  proof (cases "l < c")
    case True then show ?thesis using growcase by simp
  next
    case False
    then show ?thesis using shrinkcase[OF False] by (auto simp: s1_def l_def)
  qed
  have C: "nat c \<le> length (particles s) \<longrightarrow>
      particles (set_particle_count n s) = take (nat c) (particles s) \<and>
      next_item (set_particle_count n s) = next_item s \<and>
      (\<forall>i. items (set_particle_count n s) i =
         (if i \<in> p_id ` set (drop (nat c) (particles s)) then None else items s i))"
  proof (cases "l < c")
    case True then show ?thesis by (auto simp: l_def)
  next
    case False
    then show ?thesis using shrinkcase[OF False] by (simp add: s1_def)
  qed
  show ?thesis using A B C unfolding c_def by blast
qed

lemma randint_eq:
  "randint a b g = (a + int (draws g (pos g) mod nat (b - a + 1)), g\<lparr>pos := Suc (pos g)\<rparr>)"
  by (simp add: randint_def randbelow_def next_raw_def)

lemma randint_range:
  assumes "a \<le> b"
  shows "a \<le> fst (randint a b g) \<and> fst (randint a b g) \<le> b"
proof -
  have "0 < nat (b - a + 1)" using assms by simp
  then have "draws g (pos g) mod nat (b - a + 1) < nat (b - a + 1)" by (rule mod_less_divisor)
  then have "int (draws g (pos g) mod nat (b - a + 1)) < b - a + 1" using assms by linarith
  then show ?thesis by (simp add: randint_eq)
qed

lemma scatter_loop_result:
  "scatter_loop w h ps s = (ps', s') \<Longrightarrow>
   length ps' = length ps \<and>
   random s' = (random s)\<lparr>pos := pos (random s) + 2 * length ps\<rparr> \<and>
   (\<forall>i<length ps. ps' ! i = (ps ! i)
      \<lparr>p_x := real_of_int (fst (randint 0 w ((random s)\<lparr>pos := pos (random s) + 2 * i\<rparr>))),
       p_y := real_of_int (fst (randint 0 h ((random s)\<lparr>pos := pos (random s) + 2 * i + 1\<rparr>)))\<rparr>)"
proof (induction ps arbitrary: s ps' s')
  case Nil
  then show ?case by simp
next
  case (Cons p ps)
  define g2 where "g2 = (random s)\<lparr>pos := pos (random s) + 2\<rparr>"
  define q where "q = p\<lparr>p_x := real_of_int (fst (randint 0 w (random s))),
      p_y := real_of_int (fst (randint 0 h ((random s)\<lparr>pos := Suc (pos (random s))\<rparr>)))\<rparr>"
  define s1 where "s1 = draw_particle q (s\<lparr>random := g2\<rparr>)"
  obtain qs t where rec: "scatter_loop w h ps s1 = (qs, t)" by (cases "scatter_loop w h ps s1")
  have res: "ps' = q # qs" "s' = t"
    using Cons.prems rec
    by (simp_all add: randint_eq Let_def q_def s1_def g2_def)
  have r1: "random s1 = g2" by (simp add: s1_def draw_particle_fields)
  note ih = Cons.IH[OF rec]
  have len: "length ps' = length (p # ps)" using ih res by simp
  have rnd: "random s' = (random s)\<lparr>pos := pos (random s) + 2 * length (p # ps)\<rparr>"
    using ih res by (simp add: r1 g2_def)
  have nth: "ps' ! i = ((p # ps) ! i)
      \<lparr>p_x := real_of_int (fst (randint 0 w ((random s)\<lparr>pos := pos (random s) + 2 * i\<rparr>))),
       p_y := real_of_int (fst (randint 0 h ((random s)\<lparr>pos := pos (random s) + 2 * i + 1\<rparr>)))\<rparr>"
    if "i < length (p # ps)" for i
  proof (cases i)
    case 0
    then show ?thesis by (simp add: res q_def)
  next
    case (Suc j)
    with that have "j < length ps" by simp
    with ih have "qs ! j = (ps ! j)
      \<lparr>p_x := real_of_int (fst (randint 0 w ((random s1)\<lparr>pos := pos (random s1) + 2 * j\<rparr>))),
       p_y := real_of_int (fst (randint 0 h ((random s1)\<lparr>pos := pos (random s1) + 2 * j + 1\<rparr>)))\<rparr>"
      by blast
    then show ?thesis by (simp add: Suc res r1 g2_def)
  qed
  show ?case using len rnd nth by blast
qed

text \<open>
  Claim C7: a resize to a width or a height of at most 1 leaves the widget unchanged.
  With both above 1, every particle gets a new position drawn by \<^verbatim>\<open>randint\<close> (two
  draws per particle, in list order), inside the new bounds; its other keys are kept.
\<close>
theorem handle_resize_effect:
  "(ev_width e \<le> 1 \<or> ev_height e \<le> 1 \<longrightarrow> handle_resize e s = s) \<and>
   (1 < ev_width e \<and> 1 < ev_height e \<longrightarrow>
      length (particles (handle_resize e s)) = length (particles s) \<and>
      (\<forall>i<length (particles s).
         particles (handle_resize e s) ! i = (particles s ! i)
           \<lparr>p_x := real_of_int (fst (randint 0 (ev_width e)
                      ((random s)\<lparr>pos := pos (random s) + 2 * i\<rparr>))),
            p_y := real_of_int (fst (randint 0 (ev_height e)
                      ((random s)\<lparr>pos := pos (random s) + 2 * i + 1\<rparr>)))\<rparr> \<and>
         0 \<le> p_x (particles (handle_resize e s) ! i) \<and>
         p_x (particles (handle_resize e s) ! i) \<le> real_of_int (ev_width e) \<and>
         0 \<le> p_y (particles (handle_resize e s) ! i) \<and>
         p_y (particles (handle_resize e s) ! i) \<le> real_of_int (ev_height e)))"
proof (intro conjI impI)
  assume "ev_width e \<le> 1 \<or> ev_height e \<le> 1"
  then show "handle_resize e s = s"
    by (simp add: handle_resize_def scatter_particles_def)
next
  assume big: "1 < ev_width e \<and> 1 < ev_height e"
  obtain ps' s' where sl: "scatter_loop (ev_width e) (ev_height e) (particles s) s = (ps', s')"
    by (cases "scatter_loop (ev_width e) (ev_height e) (particles s) s")
  have hp: "particles (handle_resize e s) = ps'"
    using big sl by (simp add: handle_resize_def scatter_particles_def)
  note r = scatter_loop_result[OF sl]
  show "length (particles (handle_resize e s)) = length (particles s)"
    using r hp by simp
  show "\<forall>i<length (particles s).
         particles (handle_resize e s) ! i = (particles s ! i)
           \<lparr>p_x := real_of_int (fst (randint 0 (ev_width e)
                      ((random s)\<lparr>pos := pos (random s) + 2 * i\<rparr>))),
            p_y := real_of_int (fst (randint 0 (ev_height e)
                      ((random s)\<lparr>pos := pos (random s) + 2 * i + 1\<rparr>)))\<rparr> \<and>
         0 \<le> p_x (particles (handle_resize e s) ! i) \<and>
         p_x (particles (handle_resize e s) ! i) \<le> real_of_int (ev_width e) \<and>
         0 \<le> p_y (particles (handle_resize e s) ! i) \<and>
         p_y (particles (handle_resize e s) ! i) \<le> real_of_int (ev_height e)"
  proof (intro allI impI)
    fix i assume i: "i < length (particles s)"
    have w: "(0::int) \<le> ev_width e" and h: "(0::int) \<le> ev_height e" using big by simp_all
    from r i have eq: "ps' ! i = (particles s ! i)
           \<lparr>p_x := real_of_int (fst (randint 0 (ev_width e)
                      ((random s)\<lparr>pos := pos (random s) + 2 * i\<rparr>))),
            p_y := real_of_int (fst (randint 0 (ev_height e)
                      ((random s)\<lparr>pos := pos (random s) + 2 * i + 1\<rparr>)))\<rparr>"
      by blast
    show "particles (handle_resize e s) ! i = (particles s ! i)
           \<lparr>p_x := real_of_int (fst (randint 0 (ev_width e)
                      ((random s)\<lparr>pos := pos (random s) + 2 * i\<rparr>))),
            p_y := real_of_int (fst (randint 0 (ev_height e)
                      ((random s)\<lparr>pos := pos (random s) + 2 * i + 1\<rparr>)))\<rparr> \<and>
         0 \<le> p_x (particles (handle_resize e s) ! i) \<and>
         p_x (particles (handle_resize e s) ! i) \<le> real_of_int (ev_width e) \<and>
         0 \<le> p_y (particles (handle_resize e s) ! i) \<and>
         p_y (particles (handle_resize e s) ! i) \<le> real_of_int (ev_height e)"
      unfolding hp eq
      using randint_range[OF w, of "(random s)\<lparr>pos := pos (random s) + 2 * i\<rparr>"]
        randint_range[OF h, of "(random s)\<lparr>pos := pos (random s) + 2 * i + 1\<rparr>"]
      by simp
  qed
qed







text \<open>The ranges of a new particle, as \<^verbatim>\<open>_create_particle\<close> draws them.\<close>

lemma uniform_range:
  assumes "a \<le> b"
  shows "a \<le> fst (uniform a b g) \<and> fst (uniform a b g) \<le> b"
proof -
  define r where "r = real (draws g (pos g) mod 2 ^ 53) / 2 ^ 53"
  have "draws g (pos g) mod 2 ^ 53 < (2::nat) ^ 53" by simp
  then have "real (draws g (pos g) mod 2 ^ 53) < 2 ^ 53"
    by (metis of_nat_less_iff of_nat_numeral of_nat_power)
  then have r: "0 \<le> r \<and> r \<le> 1" by (simp add: r_def)
  have v: "fst (uniform a b g) = a + (b - a) * r"
    by (simp add: uniform_def randbelow_def next_raw_def r_def)
  have "0 \<le> (b - a) * r" using assms r by simp
  moreover have "(b - a) * r \<le> (b - a) * 1"
    using assms r by (intro mult_left_mono) simp_all
  ultimately show ?thesis unfolding v by simp
qed

lemma create_particle_ranges:
  assumes "create_particle s = (p, s')"
  shows "p_x p = 0 \<and> p_y p = 0 \<and> 6 \<le> p_size p \<and> p_size p \<le> 50 \<and>
         \<bar>p_dx p\<bar> \<le> 1.5 \<and> 0.3 \<le> p_dy p \<and> p_dy p \<le> 1.6"
proof -
  obtain sz g1 where a: "randint 6 50 (random s) = (sz, g1)" by (cases "randint 6 50 (random s)")
  obtain vx g2 where b: "uniform (- 1.5) 1.5 g1 = (vx, g2)" by (cases "uniform (- 1.5) 1.5 g1")
  obtain vy g3 where c: "uniform 0.3 1.6 g2 = (vy, g3)" by (cases "uniform 0.3 1.6 g2")
  have "6 \<le> sz \<and> sz \<le> 50" using randint_range[of 6 50 "random s"] a by simp
  moreover have "- 1.5 \<le> vx \<and> vx \<le> 1.5" using uniform_range[of "- 1.5" "1.5" g1] b by simp
  moreover have "0.3 \<le> vy \<and> vy \<le> 1.6" using uniform_range[of "0.3" "1.6" g2] c by simp
  ultimately show ?thesis
    using assms a b c
    by (auto simp: create_particle_def create_oval_def abs_le_iff split: prod.splits)
qed
















text \<open>
  Claim C3 on a widget of six particles: growing to 40 keeps the six in front and
  creates 34 items; asking for 2 is clamped to 5 and removes the last particle and its
  item.
\<close>
theorem set_particle_count_converges_witness:
  "length (particles demo_canvas) = 6 \<and>
   length (particles (set_particle_count 40 demo_canvas)) = 40 \<and>
   take 6 (particles (set_particle_count 40 demo_canvas)) = particles demo_canvas \<and>
   next_item (set_particle_count 40 demo_canvas) = 41 \<and>
   particles (set_particle_count 2 demo_canvas) = take 5 (particles demo_canvas) \<and>
   items (set_particle_count 2 demo_canvas) 6 = None \<and>
   items (set_particle_count 2 demo_canvas) 5 = items demo_canvas 5"
proof -
  have l: "length (particles demo_canvas) = 6" by (simp add: demo_canvas_def)
  have g: "length (particles demo_canvas) \<le> nat (max 5 (min 40 150))" by (simp add: l)
  have s: "nat (max 5 (min 2 150)) \<le> length (particles demo_canvas)" by (simp add: l)
  have d: "p_id ` set (drop 5 (particles demo_canvas)) = {6}"
    by (simp add: demo_canvas_def demo_particle_def upt_rec)
  from set_particle_count_converges[of 40 demo_canvas] set_particle_count_converges[of 2 demo_canvas] g s
  show ?thesis by (simp add: l d) (simp add: demo_canvas_def)
qed

text \<open>
  Claim C7 on the six-particle widget: a 1 by 300 resize changes nothing, a 200 by 300
  resize moves the second particle to the position given by the third and fourth draws.
\<close>
theorem handle_resize_effect_witness:
  "handle_resize \<lparr>ev_width = 1, ev_height = 300\<rparr> demo_canvas = demo_canvas \<and>
   length (particles (handle_resize \<lparr>ev_width = 200, ev_height = 300\<rparr> demo_canvas)) = 6 \<and>
   p_x (particles (handle_resize \<lparr>ev_width = 200, ev_height = 300\<rparr> demo_canvas) ! 1) = 17 \<and>
   p_y (particles (handle_resize \<lparr>ev_width = 200, ev_height = 300\<rparr> demo_canvas) ! 1) = 24 \<and>
   p_size (particles (handle_resize \<lparr>ev_width = 200, ev_height = 300\<rparr> demo_canvas) ! 1) = 8"
proof -
  have l: "length (particles demo_canvas) = 6" by (simp add: demo_canvas_def)
  have n: "particles demo_canvas ! 1 = demo_particle 2"
    by (simp add: demo_canvas_def upt_rec numeral_2_eq_2)
  from handle_resize_effect[of "\<lparr>ev_width = 1, ev_height = 300\<rparr>" demo_canvas]
    handle_resize_effect[of "\<lparr>ev_width = 200, ev_height = 300\<rparr>" demo_canvas]
  show ?thesis
    by (simp add: l n) (simp add: demo_canvas_def demo_particle_def demo_rng_def randint_eq)
qed


section \<open>Lemmas on the application\<close>

declare run_until.simps [simp del]
declare str_of_nat.simps [simp del]

lemma ascii_Nil: "ascii [] = []"
  by (simp add: ascii_def)

lemma ascii_Cons: "ascii (c # cs) = of_char c # ascii cs"
  by (simp add: ascii_def)

lemma run_until_none:
  "first_due t (timers (root s)) = None \<Longrightarrow>
   run_until t s = s\<lparr>root := (root s)\<lparr>now := max (now (root s)) t\<rparr>\<rparr>"
  by (subst run_until.simps) simp

lemma run_until_some:
  "first_due t (timers (root s)) = Some tm \<Longrightarrow>
   run_until t s = run_until t
            (run_callback (t_callback tm)
               (s\<lparr>root := (root s)\<lparr>now := max (now (root s)) (t_due tm),
                                   timers := remove1 tm (timers (root s))\<rparr>\<rparr>))"
  by (subst run_until.simps) simp

lemma run_callback_root: "root (run_callback cb s) = root s"
  by (cases cb)
    (auto simp: translate_def set_status_def report_callback_exception_def handle_error_def
      apply_translation_def record_history_def Let_def
      split: sum.splits option.splits pyobj.splits if_splits)

text \<open>A single due timer: the loop runs its callback once and then waits.\<close>

lemma run_until_single:
  assumes "timers (root s) = [tm]" and "t_due tm \<le> t"
  shows "run_until t s =
     (let u = run_callback (t_callback tm)
                (s\<lparr>root := (root s)\<lparr>now := max (now (root s)) (t_due tm), timers := []\<rparr>\<rparr>)
      in u\<lparr>root := (root u)\<lparr>now := max (now (root u)) t\<rparr>\<rparr>)"
proof -
  have fd: "first_due t (timers (root s)) = Some tm" using assms by simp
  define u where "u = run_callback (t_callback tm)
                (s\<lparr>root := (root s)\<lparr>now := max (now (root s)) (t_due tm), timers := []\<rparr>\<rparr>)"
  have "timers (root u) = []" by (simp add: u_def run_callback_root)
  then have "first_due t (timers (root u)) = None" by simp
  from run_until_none[OF this] show ?thesis
    using run_until_some[OF fd] assms(1) by (simp add: u_def[symmetric] Let_def)
qed

lemma translate_worker_raises:
  assumes "translator s text src dest = Inl e"
  shows "translate_worker text src dest s =
     s\<lparr>cells := cells s @ [None],
       root := (root s)\<lparr>timers := timers (root s) @
                 [\<lparr>t_id = next_timer (root s), t_due = now (root s),
                   t_callback = HandleError (length (cells s))\<rparr>],
               next_timer := Suc (next_timer (root s))\<rparr>\<rparr>"
  using assms by (simp add: translate_worker_def after_def Let_def)

lemma translate_worker_returns:
  assumes "translator s text src dest = Inr result"
  shows "translate_worker text src dest s =
     s\<lparr>cells := cells s @ [Some (ResultObj result)],
       root := (root s)\<lparr>timers := timers (root s) @
                 [\<lparr>t_id = next_timer (root s), t_due = now (root s),
                   t_callback = ApplyTranslation (length (cells s))\<rparr>],
               next_timer := Suc (next_timer (root s))\<rparr>\<rparr>"
  using assms by (simp add: translate_worker_def after_def Let_def)

lemma failure_not_delivered:
  assumes "translator s text src dest = Inl e" and "timers (root s) = []" and "now (root s) \<le> t"
  shows "run_until t (translate_worker text src dest s) =
     s\<lparr>cells := cells s @ [None],
       root := (root s)\<lparr>next_timer := Suc (next_timer (root s)), timers := [], now := t\<rparr>,
       callback_errors := callback_errors s @ [NameError ''exc'']\<rparr>"
proof -
  define tm where "tm = \<lparr>t_id = next_timer (root s), t_due = now (root s),
                   t_callback = HandleError (length (cells s))\<rparr>"
  define w where "w = translate_worker text src dest s"
  have w: "w = s\<lparr>cells := cells s @ [None],
       root := (root s)\<lparr>timers := [tm], next_timer := Suc (next_timer (root s))\<rparr>\<rparr>"
    using translate_worker_raises[OF assms(1)] assms(2) by (simp add: w_def tm_def)
  have t1: "timers (root w) = [tm]" by (simp add: w)
  have t2: "t_due tm \<le> t" using assms(3) by (simp add: tm_def)
  show ?thesis
    unfolding w_def[symmetric] run_until_single[OF t1 t2]
    using assms(3)
    by (simp add: w tm_def Let_def load_cell_def report_callback_exception_def max_def)
qed

lemma apply_translation_root: "root (apply_translation result s) = root s"
  by (simp add: apply_translation_def record_history_def set_status_def Let_def)

lemma success_delivered:
  assumes "translator s text src dest = Inr result" and "timers (root s) = []"
    and "now (root s) \<le> t"
  shows "run_until t (translate_worker text src dest s) =
     (apply_translation result
        (s\<lparr>cells := cells s @ [Some (ResultObj result)],
           root := (root s)\<lparr>next_timer := Suc (next_timer (root s)), timers := []\<rparr>\<rparr>))
     \<lparr>root := (root s)\<lparr>next_timer := Suc (next_timer (root s)), timers := [], now := t\<rparr>\<rparr>"
proof -
  define tm where "tm = \<lparr>t_id = next_timer (root s), t_due = now (root s),
                   t_callback = ApplyTranslation (length (cells s))\<rparr>"
  define w where "w = translate_worker text src dest s"
  have w: "w = s\<lparr>cells := cells s @ [Some (ResultObj result)],
       root := (root s)\<lparr>timers := [tm], next_timer := Suc (next_timer (root s))\<rparr>\<rparr>"
    using translate_worker_returns[OF assms(1)] assms(2) by (simp add: w_def tm_def)
  have t1: "timers (root w) = [tm]" by (simp add: w)
  have t2: "t_due tm \<le> t" using assms(3) by (simp add: tm_def)
  show ?thesis
    unfolding w_def[symmetric] run_until_single[OF t1 t2]
    using assms(3)
    by (simp add: w tm_def Let_def load_cell_def max_def apply_translation_root)
qed

text \<open>The failing path of \<^verbatim>\<open>_speak_worker\<close> ends the same way.\<close>

lemma speak_failure_not_delivered:
  assumes "tts_engine s text = Some e" and "timers (root s) = []" and "now (root s) \<le> t"
  shows "run_until t (speak_worker text s) =
     s\<lparr>cells := cells s @ [None],
       root := (root s)\<lparr>next_timer := Suc (next_timer (root s)), timers := [], now := t\<rparr>,
       callback_errors := callback_errors s @ [NameError ''exc'']\<rparr>"
proof -
  define tm where "tm = \<lparr>t_id = next_timer (root s), t_due = now (root s),
                   t_callback = TtsFailed (length (cells s))\<rparr>"
  define w where "w = speak_worker text s"
  have w: "w = s\<lparr>cells := cells s @ [None],
       root := (root s)\<lparr>timers := [tm], next_timer := Suc (next_timer (root s))\<rparr>\<rparr>"
    using assms(1,2) by (simp add: w_def tm_def speak_worker_def after_def Let_def)
  have t1: "timers (root w) = [tm]" by (simp add: w)
  have t2: "t_due tm \<le> t" using assms(3) by (simp add: tm_def)
  show ?thesis
    unfolding w_def[symmetric] run_until_single[OF t1 t2]
    using assms(3)
    by (simp add: w tm_def Let_def load_cell_def report_callback_exception_def max_def)
qed

lemma demo_press_translate:
  "run_callback Translate demo_app =
     demo_app\<lparr>status_var := ascii ''Translating'' @ ELLIPSIS,
              status_tooltip := Some (ascii ''Translating'' @ ELLIPSIS),
              threads := [TranslateWorker (ascii ''hello'') (ascii ''auto'') (ascii ''en'')],
              typing_job := None\<rparr>"
  by (simp add: demo_app_def translate_def strip_def text_get_def isspace_def set_status_def
      Let_def ascii_Nil ascii_Cons)

text \<open>
  Claim C1, on the failing path: the user presses Translate, the service raises, the
  worker hands its lambda to \<^verbatim>\<open>after\<close> and returns, and the Tk loop runs the lambda.
  The cell of \<^verbatim>\<open>exc\<close> is unbound by then, so the lambda raises NameError inside the
  loop: \<^verbatim>\<open>_handle_error\<close> is never called (no error dialog, the status is still
  \<^verbatim>\<open>Translating\<close>) and nothing else is pending. The claim asks for one call of the
  failure callback with the exception.
\<close>
theorem translate_failure_not_delivered:
  "errors_shown failed_run = [] \<and>
   callback_errors failed_run = [NameError ''exc''] \<and>
   status_var failed_run = ascii ''Translating'' @ ELLIPSIS \<and>
   elems (history failed_run) = [] \<and>
   threads failed_run = [] \<and> timers (root failed_run) = []"
proof -
  define s where "s = demo_app\<lparr>status_var := ascii ''Translating'' @ ELLIPSIS,
              status_tooltip := Some (ascii ''Translating'' @ ELLIPSIS),
              typing_job := None, threads := []\<rparr>"
  have raises: "translator s (ascii ''hello'') (ascii ''auto'') (ascii ''en'') =
      Inl (Exc (ascii ''network down''))"
    by (simp add: s_def demo_app_def ascii_Nil ascii_Cons)
  have idle: "timers (root s) = []" and clock: "now (root s) \<le> 0"
    by (simp_all add: s_def demo_app_def)
  have "failed_run = run_until 0 (run_thread (run_callback Translate demo_app))"
    by (simp only: failed_run_def foldl.simps step.simps)
  also have "run_thread (run_callback Translate demo_app) =
      translate_worker (ascii ''hello'') (ascii ''auto'') (ascii ''en'') s"
    unfolding demo_press_translate by (simp add: run_thread_def s_def)
  finally have fr: "failed_run =
      run_until 0 (translate_worker (ascii ''hello'') (ascii ''auto'') (ascii ''en'') s)" .
  show ?thesis
    unfolding fr failure_not_delivered[OF raises idle clock]
    by (simp add: s_def demo_app_def)
qed

lemma deque_append_maxlen: "maxlen (deque_append v d) = maxlen d"
  by (simp add: deque_append_def)

lemma deque_append_length: "length (elems (deque_append v d)) \<le> maxlen d"
  by (simp add: deque_append_def)

lemma deque_append_room:
  "length (elems d) < maxlen d \<Longrightarrow> elems (deque_append v d) = elems d @ [v]"
  by (simp add: deque_append_def)

lemma deque_append_full:
  "length (elems d) = maxlen d \<Longrightarrow> 0 < maxlen d \<Longrightarrow>
   elems (deque_append v d) = tl (elems d) @ [v]"
  by (cases "elems d") (simp_all add: deque_append_def)

lemma record_history_history:
  "history (record_history source translation detected target s) =
     deque_append
       (if length source > 120 then take 120 source @ ELLIPSIS else source,
        if length translation > 120 then take 120 translation @ ELLIPSIS else translation,
        detected, target) (history s)"
  by (simp add: record_history_def Let_def)

lemma apply_translation_history:
  "\<exists>v. history (apply_translation result s) = deque_append v (history s)"
  by (auto simp add: apply_translation_def record_history_def set_status_def Let_def)

lemma run_callback_history:
  "history (run_callback cb s) = history s \<or>
   (\<exists>v. history (run_callback cb s) = deque_append v (history s))"
proof (cases cb)
  case Translate
  then show ?thesis
    by (auto simp: translate_def set_status_def report_callback_exception_def Let_def
        split: sum.splits option.splits if_splits)
next
  case (HandleError a)
  then show ?thesis
    by (auto simp: handle_error_def set_status_def report_callback_exception_def Let_def
        split: option.splits pyobj.splits)
next
  case (ApplyTranslation a)
  then show ?thesis
    using apply_translation_history
    by (auto simp: report_callback_exception_def split: option.splits pyobj.splits)
next
  case (TtsFailed a)
  then show ?thesis
    by (auto simp: set_status_def report_callback_exception_def split: option.splits pyobj.splits)
next
  case DoneSpeaking
  then show ?thesis by (simp add: set_status_def)
qed

lemma run_callback_bounded:
  assumes "maxlen (history s) = 10 \<and> length (elems (history s)) \<le> 10"
  shows "maxlen (history (run_callback cb s)) = 10 \<and>
         length (elems (history (run_callback cb s))) \<le> 10"
  using run_callback_history[of cb s] assms
    deque_append_length[of _ "history s"] deque_append_maxlen[of _ "history s"]
  by auto

lemma run_until_bounded:
  "maxlen (history s) = 10 \<and> length (elems (history s)) \<le> 10 \<Longrightarrow>
   maxlen (history (run_until t s)) = 10 \<and> length (elems (history (run_until t s))) \<le> 10"
proof (induction t s rule: run_until.induct)
  case (1 t s)
  show ?case
  proof (cases "first_due t (timers (root s))")
    case None
    then show ?thesis using "1.prems" by (simp add: run_until_none)
  next
    case (Some tm)
    define u where "u = s\<lparr>root := (root s)\<lparr>now := max (now (root s)) (t_due tm),
                                   timers := remove1 tm (timers (root s))\<rparr>\<rparr>"
    have "maxlen (history u) = 10 \<and> length (elems (history u)) \<le> 10"
      using "1.prems" by (simp add: u_def)
    from run_callback_bounded[OF this]
    have "maxlen (history (run_callback (t_callback tm) u)) = 10 \<and>
          length (elems (history (run_callback (t_callback tm) u))) \<le> 10" .
    from "1.IH"[OF Some this[unfolded u_def]] show ?thesis
      by (simp add: run_until_some[OF Some])
  qed
qed

lemma run_thread_history: "history (run_thread s) = history s"
  by (simp add: run_thread_def translate_worker_def speak_worker_def after_def Let_def
      split: list.splits worker.splits sum.splits option.splits)

lemma on_input_change_history: "history (on_input_change s) = history s"
  by (simp add: on_input_change_def update_char_count_def after_def Let_def split: option.splits)

lemma speak_translation_history: "history (speak_translation s) = history s"
  by (simp add: speak_translation_def apply_tts_preferences_def set_status_def Let_def)

lemma step_bounded:
  assumes "maxlen (history s) = 10 \<and> length (elems (history s)) \<le> 10"
  shows "maxlen (history (step s ev)) = 10 \<and> length (elems (history (step s ev))) \<le> 10"
proof (cases ev)
  case (KeyRelease content)
  then show ?thesis using assms by (simp add: on_input_change_history)
next
  case PressTranslate
  then show ?thesis using run_callback_bounded[OF assms, of Translate] by simp
next
  case PressSpeak
  then show ?thesis using assms by (simp add: speak_translation_history)
next
  case ThreadRuns
  then show ?thesis using assms by (simp add: run_thread_history)
next
  case (TimeReaches t)
  then show ?thesis using run_until_bounded[OF assms, of t] by simp
qed

lemma steps_bounded:
  "maxlen (history s) = 10 \<and> length (elems (history s)) \<le> 10 \<Longrightarrow>
   maxlen (history (foldl step s evs)) = 10 \<and> length (elems (history (foldl step s evs))) \<le> 10"
proof (induction evs arbitrary: s)
  case Nil
  then show ?case by simp
next
  case (Cons ev evs)
  from Cons.IH[OF step_bounded[OF Cons.prems, of ev]] show ?case by simp
qed

text \<open>
  Claim C8: the history is created with \<^verbatim>\<open>maxlen=10\<close> and never holds more than ten
  entries, whatever the user, the threads and the timers do. \<^verbatim>\<open>_record_history\<close>
  appends the new entry at the right end; on a full history the oldest entry is dropped
  and the other nine keep their order, otherwise nothing is dropped.
\<close>
theorem history_bounded:
  assumes "maxlen (history s) = 10" and "length (elems (history s)) \<le> 10"
  shows "length (elems (history (foldl step s evs))) \<le> 10 \<and>
     length (elems (history (record_history source translation detected target s))) \<le> 10 \<and>
     (length (elems (history s)) = 10 \<longrightarrow>
        elems (history (record_history source translation detected target s)) =
          tl (elems (history s)) @
          [(if length source > 120 then take 120 source @ ELLIPSIS else source,
            if length translation > 120 then take 120 translation @ ELLIPSIS else translation,
            detected, target)]) \<and>
     (length (elems (history s)) < 10 \<longrightarrow>
        elems (history (record_history source translation detected target s)) =
          elems (history s) @
          [(if length source > 120 then take 120 source @ ELLIPSIS else source,
            if length translation > 120 then take 120 translation @ ELLIPSIS else translation,
            detected, target)])"
proof -
  have inv: "maxlen (history s) = 10 \<and> length (elems (history s)) \<le> 10" using assms by simp
  have a: "length (elems (history (foldl step s evs))) \<le> 10"
    using steps_bounded[OF inv, of evs] by simp
  have b: "length (elems (history (record_history source translation detected target s))) \<le> 10"
    using deque_append_length[of _ "history s"] assms(1) by (simp add: record_history_history)
  have c: "length (elems (history s)) = 10 \<longrightarrow>
        elems (history (record_history source translation detected target s)) =
          tl (elems (history s)) @
          [(if length source > 120 then take 120 source @ ELLIPSIS else source,
            if length translation > 120 then take 120 translation @ ELLIPSIS else translation,
            detected, target)]"
    using deque_append_full[of "history s"] assms(1) by (simp add: record_history_history)
  have d: "length (elems (history s)) < 10 \<longrightarrow>
        elems (history (record_history source translation detected target s)) =
          elems (history s) @
          [(if length source > 120 then take 120 source @ ELLIPSIS else source,
            if length translation > 120 then take 120 translation @ ELLIPSIS else translation,
            detected, target)]"
    using deque_append_room[of "history s"] assms(1) by (simp add: record_history_history)
  show ?thesis using a b c d by blast
qed

lemma translate_starts_worker:
  assumes "strip (text_get (source_text s)) \<noteq> []"
    and "(if source_lang_var s = ascii ''Auto Detect'' then Some (ascii ''auto'')
          else LANGUAGE_MAP s (source_lang_var s)) = Some src_code"
    and "LANGUAGE_MAP s (target_lang_var s) = Some tgt_code"
  shows "translate s =
     Inr (s\<lparr>status_var := ascii ''Translating'' @ ELLIPSIS,
            status_tooltip := Some (ascii ''Translating'' @ ELLIPSIS),
            threads := threads s @
              [TranslateWorker (strip (text_get (source_text s))) src_code tgt_code],
            typing_job := None\<rparr>)"
  using assms by (simp add: translate_def set_status_def Let_def)

lemma translate_blank:
  assumes "strip (text_get (source_text s)) = []"
  shows "translate s = Inr (set_status (ascii ''Type something to translate.'') s)"
  using assms by (simp add: translate_def Let_def)

lemma on_input_change_fields:
  "root (on_input_change s) =
     \<lparr>now = now (root s),
      timers = (case typing_job s of None \<Rightarrow> timers (root s)
                | Some job \<Rightarrow> filter (\<lambda>tm. t_id tm \<noteq> job) (timers (root s))) @
               [\<lparr>t_id = next_timer (root s), t_due = now (root s) + auto_translate_delay s,
                 t_callback = Translate\<rparr>],
      next_timer = Suc (next_timer (root s))\<rparr>"
  "typing_job (on_input_change s) = Some (next_timer (root s))"
  "threads (on_input_change s) = threads s"
  "source_text (on_input_change s) = source_text s"
  "source_lang_var (on_input_change s) = source_lang_var s"
  "target_lang_var (on_input_change s) = target_lang_var s"
  "LANGUAGE_MAP (on_input_change s) = LANGUAGE_MAP s"
  "auto_translate_delay (on_input_change s) = auto_translate_delay s"
  by (simp_all add: on_input_change_def update_char_count_def after_def after_cancel_def Let_def
      split: option.splits)

text \<open>
  Claim C10: an edit arms the debounce timer; when \<^verbatim>\<open>translate\<close> is then called directly
  on a text that it accepts, it starts a worker and sets \<^verbatim>\<open>typing_job\<close> to None but
  leaves the timer in the queue, so when the delay has passed the timer fires and
  \<^verbatim>\<open>translate\<close> starts a second worker on the same text and languages.
\<close>
theorem direct_translate_keeps_debounce_timer:
  assumes "timers (root s) = []"
    and "strip (text_get content) \<noteq> []"
    and "(if source_lang_var s = ascii ''Auto Detect'' then Some (ascii ''auto'')
          else LANGUAGE_MAP s (source_lang_var s)) = Some src_code"
    and "LANGUAGE_MAP s (target_lang_var s) = Some tgt_code"
  shows "typing_job (step s (KeyRelease content)) = Some (next_timer (root s)) \<and>
     timers (root (step s (KeyRelease content))) =
       [\<lparr>t_id = next_timer (root s), t_due = now (root s) + auto_translate_delay s,
         t_callback = Translate\<rparr>] \<and>
     typing_job (step (step s (KeyRelease content)) PressTranslate) = None \<and>
     timers (root (step (step s (KeyRelease content)) PressTranslate)) =
       timers (root (step s (KeyRelease content))) \<and>
     threads (step (step s (KeyRelease content)) PressTranslate) =
       threads s @ [TranslateWorker (strip (text_get content)) src_code tgt_code] \<and>
     threads (step (step (step s (KeyRelease content)) PressTranslate)
                (TimeReaches (now (root s) + auto_translate_delay s))) =
       threads s @ [TranslateWorker (strip (text_get content)) src_code tgt_code,
                    TranslateWorker (strip (text_get content)) src_code tgt_code] \<and>
     timers (root (step (step (step s (KeyRelease content)) PressTranslate)
                (TimeReaches (now (root s) + auto_translate_delay s)))) = []"
proof -
  define tm where "tm = \<lparr>t_id = next_timer (root s),
      t_due = now (root s) + auto_translate_delay s, t_callback = Translate\<rparr>"
  define w where "w = TranslateWorker (strip (text_get content)) src_code tgt_code"
  define s1 where "s1 = step s (KeyRelease content)"
  define s2 where "s2 = step s1 PressTranslate"
  define s3 where "s3 = step s2 (TimeReaches (now (root s) + auto_translate_delay s))"
  have s1: "s1 = on_input_change (s\<lparr>source_text := content\<rparr>)" by (simp add: s1_def)
  have j1: "typing_job s1 = Some (next_timer (root s))"
    by (simp add: s1 on_input_change_fields)
  have t1: "timers (root s1) = [tm]"
    using assms(1) by (simp add: s1 on_input_change_fields tm_def split: option.splits)
  have n1: "now (root s1) = now (root s)" by (simp add: s1 on_input_change_fields)
  have h1: "threads s1 = threads s" by (simp add: s1 on_input_change_fields)
  have tr1: "translate s1 =
     Inr (s1\<lparr>status_var := ascii ''Translating'' @ ELLIPSIS,
            status_tooltip := Some (ascii ''Translating'' @ ELLIPSIS),
            threads := threads s1 @ [TranslateWorker (strip (text_get (source_text s1))) src_code tgt_code],
            typing_job := None\<rparr>)"
    by (rule translate_starts_worker) (use assms in \<open>auto simp add: s1 on_input_change_fields split: if_splits\<close>)
  have src1: "source_text s1 = content" by (simp add: s1 on_input_change_fields)
  have s2: "s2 = s1\<lparr>status_var := ascii ''Translating'' @ ELLIPSIS,
            status_tooltip := Some (ascii ''Translating'' @ ELLIPSIS),
            threads := threads s @ [w], typing_job := None\<rparr>"
    by (simp add: s2_def tr1 src1 h1 w_def)
  have j2: "typing_job s2 = None" and t2: "timers (root s2) = [tm]"
    and h2: "threads s2 = threads s @ [w]" and n2: "now (root s2) = now (root s)"
    by (simp_all add: s2 t1 n1)
  define u where "u = s2\<lparr>root := (root s2)\<lparr>now := max (now (root s2)) (t_due tm), timers := []\<rparr>\<rparr>"
  have tru: "translate u =
     Inr (u\<lparr>status_var := ascii ''Translating'' @ ELLIPSIS,
            status_tooltip := Some (ascii ''Translating'' @ ELLIPSIS),
            threads := threads u @ [TranslateWorker (strip (text_get (source_text u))) src_code tgt_code],
            typing_job := None\<rparr>)"
    by (rule translate_starts_worker)
      (use assms in \<open>auto simp add: u_def s2 s1 on_input_change_fields split: if_splits\<close>)
  have due: "t_due tm \<le> now (root s) + auto_translate_delay s" by (simp add: tm_def)
  have "s3 = run_until (now (root s) + auto_translate_delay s) s2" by (simp add: s3_def)
  also have "\<dots> = (let v = run_callback (t_callback tm) u
      in v\<lparr>root := (root v)\<lparr>now := max (now (root v)) (now (root s) + auto_translate_delay s)\<rparr>\<rparr>)"
    unfolding u_def by (rule run_until_single[OF t2 due])
  finally have s3: "s3 = (let v = run_callback Translate u
      in v\<lparr>root := (root v)\<lparr>now := max (now (root v)) (now (root s) + auto_translate_delay s)\<rparr>\<rparr>)"
    by (simp add: tm_def)
  have h3: "threads s3 = threads s @ [w, w]"
    by (simp add: s3 Let_def tru) (simp add: u_def s2 s1 on_input_change_fields w_def)
  have t3: "timers (root s3) = []"
    by (simp add: s3 Let_def tru) (simp add: u_def)
  show ?thesis
    using j1 t1 j2 t2 h2 h3 t3
    unfolding s3_def s2_def s1_def tm_def w_def by simp
qed





text \<open>
  Claim C8 on the empty history of the example application and on a history of ten
  entries.
\<close>
theorem history_bounded_witness:
  "elems (history (record_history (ascii ''hello'') (ascii ''hola'') (ascii ''English'')
            (ascii ''Spanish'') demo_app)) =
     [(ascii ''hello'', ascii ''hola'', ascii ''English'', ascii ''Spanish'')] \<and>
   length (elems (history full_app)) = 10 \<and>
   elems (history (record_history (ascii ''hello'') (ascii ''hola'') (ascii ''English'')
            (ascii ''Spanish'') full_app)) =
     tl (elems (history full_app)) @
     [(ascii ''hello'', ascii ''hola'', ascii ''English'', ascii ''Spanish'')] \<and>
   length (elems (history (foldl step full_app [PressTranslate, ThreadRuns, TimeReaches 5]))) \<le> 10"
proof -
  have d1: "maxlen (history demo_app) = 10" and d2: "length (elems (history demo_app)) \<le> 10"
    and d3: "length (elems (history demo_app)) < 10" and d4: "elems (history demo_app) = []"
    by (simp_all add: demo_app_def)
  have f1: "maxlen (history full_app) = 10" and f2: "length (elems (history full_app)) \<le> 10"
    and f3: "length (elems (history full_app)) = 10"
    by (simp_all add: full_app_def)
  have short: "\<not> 120 < length (ascii ''hello'')" "\<not> 120 < length (ascii ''hola'')"
    by (simp_all add: ascii_def)
  from history_bounded[OF d1 d2, of "[]" "ascii ''hello''" "ascii ''hola''" "ascii ''English''" "ascii ''Spanish''"]
    history_bounded[OF f1 f2, of "[PressTranslate, ThreadRuns, TimeReaches 5]"
      "ascii ''hello''" "ascii ''hola''" "ascii ''English''" "ascii ''Spanish''"]
  show ?thesis
    using d3 d4 f3 short by (simp del: foldl.simps step.simps foldl_Cons foldl_Nil)
qed

text \<open>Claim C10 on the example application, after typing \<^verbatim>\<open>hello\<close>.\<close>
theorem direct_translate_keeps_debounce_timer_witness:
  "typing_job (step demo_app (KeyRelease (ascii ''hello''))) = Some 0 \<and>
   typing_job (step (step demo_app (KeyRelease (ascii ''hello''))) PressTranslate) = None \<and>
   timers (root (step (step demo_app (KeyRelease (ascii ''hello''))) PressTranslate)) =
     [\<lparr>t_id = 0, t_due = 650, t_callback = Translate\<rparr>] \<and>
   threads (step (step (step demo_app (KeyRelease (ascii ''hello''))) PressTranslate)
              (TimeReaches 650)) =
     [TranslateWorker (ascii ''hello'') (ascii ''auto'') (ascii ''en''),
      TranslateWorker (ascii ''hello'') (ascii ''auto'') (ascii ''en'')]"
proof -
  have hs: "strip (text_get (ascii ''hello'')) = ascii ''hello''"
    by (simp add: strip_def text_get_def isspace_def ascii_Nil ascii_Cons)
  have h1: "timers (root demo_app) = []" by (simp add: demo_app_def)
  have h2: "strip (text_get (ascii ''hello'')) \<noteq> []"
    unfolding hs by (simp add: ascii_Cons)
  have h3: "(if source_lang_var demo_app = ascii ''Auto Detect'' then Some (ascii ''auto'')
          else LANGUAGE_MAP demo_app (source_lang_var demo_app)) = Some (ascii ''auto'')"
    by (simp add: demo_app_def)
  have h4: "LANGUAGE_MAP demo_app (target_lang_var demo_app) = Some (ascii ''en'')"
    by (simp add: demo_app_def ascii_Nil ascii_Cons)
  have vals: "now (root demo_app) = 0" "auto_translate_delay demo_app = 650"
    "next_timer (root demo_app) = 0" "threads demo_app = []"
    by (simp_all add: demo_app_def)
  from direct_translate_keeps_debounce_timer[OF h1 h2 h3 h4]
  show ?thesis by (simp add: vals hs del: step.simps)
qed

end
